theory Spec2Isabelle
  imports Complex_Main
begin

section \<open>Real-time chat WebSocket server: registry, history and broadcast\<close>

text \<open>
  A shallow embedding of \<^verbatim>\<open>handle_connection\<close> of \<^verbatim>\<open>server.py\<close>. The server runs
  one coroutine per connection on a single-threaded event loop, so the code between two
  \<^verbatim>\<open>await\<close>s runs without interruption. The embedding has one step per such stretch:
  the registration of a client with the replay of the history, one turn of the message
  loop, and the \<^verbatim>\<open>finally\<close> block that unregisters the client.
\<close>

subsection \<open>Values\<close>

text \<open>
  What \<^verbatim>\<open>json.loads\<close> returns. Numbers are opaque to the server: it stores them and
  sends them back, and every operation modelled here treats an int and a float alike.
  A dict is an association list read with \<^const>\<open>map_of\<close>; the dicts that
  \<^verbatim>\<open>json.loads\<close> builds have no duplicate keys.
\<close>

datatype json =
    JNull
  | JBool bool
  | JInt int
  | JFloat real
  | JStr string
  | JArr "json list"
  | JObj "(string \<times> json) list"

text \<open>The exception classes that occur; all of them derive from \<^verbatim>\<open>Exception\<close>.\<close>

datatype py_error =
    JSONDecodeError
  | UnicodeDecodeError
  | ValueError
  | RecursionError
  | TypeError
  | KeyError
  | ConnectionClosed

text \<open>A client handle: the websocket object, told apart by its identity.\<close>

type_synonym handle = nat

subsection \<open>Python's operators on parsed values\<close>

fun startswith :: "string \<Rightarrow> string \<Rightarrow> bool" where
  "startswith s [] = True"
| "startswith [] (p # ps) = False"
| "startswith (c # cs) (p # ps) = (c = p \<and> startswith cs ps)"

fun str_contains :: "string \<Rightarrow> string \<Rightarrow> bool" where
  "str_contains [] sub = (sub = [])"
| "str_contains (c # cs) sub = (startswith (c # cs) sub \<or> str_contains cs sub)"

text \<open>
  \<^verbatim>\<open>key in data\<close> for a string \<^verbatim>\<open>key\<close>: key membership on a dict, substring test on a
  string, element membership on a list, and \<^verbatim>\<open>TypeError\<close> (not iterable) on a number, a
  boolean and \<^verbatim>\<open>None\<close>.
\<close>

fun py_in :: "string \<Rightarrow> json \<Rightarrow> py_error + bool" where
  "py_in k (JObj kvs) = Inr (map_of kvs k \<noteq> None)"
| "py_in k (JStr s) = Inr (str_contains s k)"
| "py_in k (JArr xs) = Inr (JStr k \<in> set xs)"
| "py_in k JNull = Inl TypeError"
| "py_in k (JBool b) = Inl TypeError"
| "py_in k (JInt i) = Inl TypeError"
| "py_in k (JFloat r) = Inl TypeError"

text \<open>
  \<^verbatim>\<open>data[key]\<close> for a string \<^verbatim>\<open>key\<close>: lookup on a dict (\<^verbatim>\<open>KeyError\<close> when the key is
  missing) and \<^verbatim>\<open>TypeError\<close> on everything else (a string and a list take integer
  indices only, the rest is not subscriptable).
\<close>

fun py_getitem :: "json \<Rightarrow> string \<Rightarrow> py_error + json" where
  "py_getitem (JObj kvs) k = (case map_of kvs k of None \<Rightarrow> Inl KeyError | Some v \<Rightarrow> Inr v)"
| "py_getitem (JStr s) k = Inl TypeError"
| "py_getitem (JArr xs) k = Inl TypeError"
| "py_getitem JNull k = Inl TypeError"
| "py_getitem (JBool b) k = Inl TypeError"
| "py_getitem (JInt i) k = Inl TypeError"
| "py_getitem (JFloat r) k = Inl TypeError"

subsection \<open>The server's state\<close>

text \<open>
  The two globals of the module, and what the server has done to the outside: for every
  connection the texts passed to its \<^verbatim>\<open>send\<close>, in the order of the calls. \<open>'w\<close> is the
  type of these texts, the results of \<^verbatim>\<open>json.dumps\<close>.
\<close>

record 'w state =
  connected_clients :: "handle set"
  chat_history :: "json list"
  sent :: "handle \<Rightarrow> 'w list"

definition init :: "'w state" where
  "init = \<lparr>connected_clients = {}, chat_history = [], sent = (\<lambda>c. [])\<rparr>"

subsection \<open>What a step logs\<close>

text \<open>
  Which branch the step took. \<open>History_failed\<close> is the log entry of line 125 and
  \<open>Processing_error\<close> the one of line 123; \<open>Handler_raised\<close> is an exception that leaves
  the handler.
\<close>

datatype outcome =
    History_replayed
  | No_history
  | History_failed py_error
  | Broadcast_complete
  | No_recipients
  | Missing_fields
  | Invalid_JSON
  | Processing_error py_error
  | Unregistered
  | Handler_raised py_error

subsection \<open>Registration and history replay (lines 57 to 72)\<close>

definition register :: "handle \<Rightarrow> 'w state \<Rightarrow> 'w state" where
  "register h s = s\<lparr>connected_clients := insert h (connected_clients s)\<rparr>"

definition history_payload :: "json list \<Rightarrow> json" where
  "history_payload ms = JObj [(''type'', JStr ''history''), (''messages'', JArr ms)]"

definition send :: "handle \<Rightarrow> 'w \<Rightarrow> 'w state \<Rightarrow> 'w state" where
  "send c w s = s\<lparr>sent := (sent s)(c := sent s c @ [w])\<rparr>"

text \<open>
  Lines 63 to 72. \<open>dumps\<close> is \<^verbatim>\<open>json.dumps\<close>: it raises \<^verbatim>\<open>RecursionError\<close> on a value
  nested too deep for the interpreter, and then nothing is sent and the exception is
  caught at line 124.
\<close>

definition send_history ::
    "(json \<Rightarrow> py_error + 'w) \<Rightarrow> handle \<Rightarrow> 'w state \<Rightarrow> 'w state \<times> outcome" where
  "send_history dumps h s =
     (if chat_history s \<noteq> [] then
        (case dumps (history_payload (chat_history s)) of
           Inl e \<Rightarrow> (s, History_failed e)
         | Inr history_json \<Rightarrow> (send h history_json s, History_replayed))
      else (s, No_history))"

definition connect ::
    "(json \<Rightarrow> py_error + 'w) \<Rightarrow> handle \<Rightarrow> 'w state \<Rightarrow> 'w state \<times> outcome" where
  "connect dumps h s = send_history dumps h (register h s)"

subsection \<open>One turn of the message loop (lines 77 to 123)\<close>

text \<open>Line 81: \<^verbatim>\<open>'text' in data and 'sender' in data\<close>, evaluated left to right.\<close>

definition has_required_fields :: "json \<Rightarrow> py_error + bool" where
  "has_required_fields data =
     (case py_in ''text'' data of
        Inl e \<Rightarrow> Inl e
      | Inr False \<Rightarrow> Inr False
      | Inr True \<Rightarrow> py_in ''sender'' data)"

text \<open>Lines 83 to 88: the message object, with the server's clock reading.\<close>

definition message_obj :: "json \<Rightarrow> string \<Rightarrow> py_error + json" where
  "message_obj data now =
     (case py_getitem data ''text'' of
        Inl e \<Rightarrow> Inl e
      | Inr t \<Rightarrow>
          (case py_getitem data ''sender'' of
             Inl e \<Rightarrow> Inl e
           | Inr sd \<Rightarrow>
               Inr (JObj [(''text'', t), (''sender'', sd), (''timestamp'', JStr now)])))"

text \<open>Lines 93 to 99: append, then drop the oldest entry when over 100.\<close>

definition add_to_history :: "json \<Rightarrow> json list \<Rightarrow> json list" where
  "add_to_history m hist =
     (let hist1 = hist @ [m] in if length hist1 > 100 then tl hist1 else hist1)"

definition live_payload :: "json \<Rightarrow> json" where
  "live_payload m = JObj [(''type'', JStr ''message''), (''message'', m)]"

text \<open>
  Lines 107 to 117, with the serialised payload \<open>w\<close>. The loop calls \<^verbatim>\<open>client.send\<close> once
  for every member of the set; the call only creates the coroutine, so it cannot raise
  and line 112 is never reached. \<open>sent\<close> records these calls, not what reaches the peer.
  \<^verbatim>\<open>asyncio.gather\<close> then awaits the coroutines, and the first exception of one of them
  reaches the turn, where line 122 catches it. \<open>broken\<close> is the set of the connections
  whose \<^verbatim>\<open>send\<close> raises; it decides what the turn logs and nothing else.
\<close>

definition broadcast :: "handle set \<Rightarrow> 'w \<Rightarrow> 'w state \<Rightarrow> 'w state \<times> outcome" where
  "broadcast broken w s =
     (let s1 = s\<lparr>sent := (\<lambda>c. if c \<in> connected_clients s then sent s c @ [w] else sent s c)\<rparr>
      in if connected_clients s = {} then (s1, No_recipients)
         else if connected_clients s \<inter> broken = {} then (s1, Broadcast_complete)
         else (s1, Processing_error ConnectionClosed))"

text \<open>
  The whole turn. \<open>loads\<close> is \<^verbatim>\<open>json.loads\<close>, \<open>dumps\<close> is \<^verbatim>\<open>json.dumps\<close>, \<open>now\<close> the clock
  reading of line 83. The message is appended to the history (line 93) before the live
  payload is serialised (line 102): when \<^verbatim>\<open>json.dumps\<close> raises, the message is stored
  and nothing is sent. Every exception is caught at line 120 or 122, so the turn always
  ends with the loop going on.
\<close>

definition process_message ::
    "('m \<Rightarrow> py_error + json) \<Rightarrow> (json \<Rightarrow> py_error + 'w) \<Rightarrow> 'm \<Rightarrow> string \<Rightarrow> handle set \<Rightarrow>
      'w state \<Rightarrow> 'w state \<times> outcome" where
  "process_message loads dumps message now broken s =
     (case loads message of
        Inl e \<Rightarrow> (s, if e = JSONDecodeError then Invalid_JSON else Processing_error e)
      | Inr data \<Rightarrow>
          (case has_required_fields data of
             Inl e \<Rightarrow> (s, Processing_error e)
           | Inr False \<Rightarrow> (s, Missing_fields)
           | Inr True \<Rightarrow>
               (case message_obj data now of
                  Inl e \<Rightarrow> (s, Processing_error e)
                | Inr m \<Rightarrow>
                    (let s1 = s\<lparr>chat_history := add_to_history m (chat_history s)\<rparr> in
                     case dumps (live_payload m) of
                       Inl e \<Rightarrow> (s1, Processing_error e)
                     | Inr message_json \<Rightarrow> broadcast broken message_json s1))))"

subsection \<open>Leaving the connection (lines 124 to 129)\<close>

text \<open>\<^verbatim>\<open>set.remove\<close> raises \<^verbatim>\<open>KeyError\<close> when the element is not in the set.\<close>

definition unregister :: "handle \<Rightarrow> 'w state \<Rightarrow> py_error + 'w state" where
  "unregister h s =
     (if h \<in> connected_clients s
      then Inr (s\<lparr>connected_clients := connected_clients s - {h}\<rparr>)
      else Inl KeyError)"

text \<open>
  How the coroutine leaves its \<^verbatim>\<open>try\<close> block: the stream of inbound messages ends, an
  exception is caught at line 124 (a failed replay of the history, a read error), or the
  task is cancelled. The \<^verbatim>\<open>finally\<close> block runs in every case.
\<close>

datatype exit_cause = Stream_ended | Caught py_error | Cancelled

definition disconnect :: "handle \<Rightarrow> exit_cause \<Rightarrow> 'w state \<Rightarrow> 'w state \<times> outcome" where
  "disconnect h cause s =
     (case unregister h s of
        Inl e \<Rightarrow> (s, Handler_raised e)
      | Inr s1 \<Rightarrow> (s1, Unregistered))"

subsection \<open>The event loop\<close>

text \<open>
  A schedule is the list of the stretches the event loop runs, in order. An inbound
  message comes with the reading of the clock and with the set of connections that are
  no longer writable when it is broadcast. A coroutine whose replay of the history fails
  (\<^verbatim>\<open>json.dumps\<close> or the send raises) leaves through line 124 to the \<^verbatim>\<open>finally\<close> block,
  which is its \<open>Disconnect\<close> event; after a failed \<^verbatim>\<open>json.dumps\<close> there is no \<^verbatim>\<open>await\<close> on
  the way, so that event comes next in the schedule. A connection carries its texts in
  the order of the calls to its \<^verbatim>\<open>send\<close>.
\<close>

datatype 'm event =
    Connect handle
  | Inbound handle 'm string "handle set"
  | Disconnect handle exit_cause

fun step ::
    "('m \<Rightarrow> py_error + json) \<Rightarrow> (json \<Rightarrow> py_error + 'w) \<Rightarrow> 'm event \<Rightarrow> 'w state \<Rightarrow>
      'w state \<times> outcome" where
  "step loads dumps (Connect h) s = connect dumps h s"
| "step loads dumps (Inbound h message now broken) s =
     process_message loads dumps message now broken s"
| "step loads dumps (Disconnect h cause) s = disconnect h cause s"

fun run ::
    "('m \<Rightarrow> py_error + json) \<Rightarrow> (json \<Rightarrow> py_error + 'w) \<Rightarrow> 'm event list \<Rightarrow> 'w state \<Rightarrow>
      'w state" where
  "run loads dumps [] s = s"
| "run loads dumps (e # es) s = run loads dumps es (fst (step loads dumps e s))"

fun outcomes ::
    "('m \<Rightarrow> py_error + json) \<Rightarrow> (json \<Rightarrow> py_error + 'w) \<Rightarrow> 'm event list \<Rightarrow> 'w state \<Rightarrow>
      outcome list" where
  "outcomes loads dumps [] s = []"
| "outcomes loads dumps (e # es) s =
     snd (step loads dumps e s) # outcomes loads dumps es (fst (step loads dumps e s))"

text \<open>
  The coroutine of a connection registers first, then reads messages, then leaves. A
  schedule is well formed when the events of every handle come in that order; \<open>live\<close> is
  the set of the handles whose coroutine is inside its \<^verbatim>\<open>try\<close> block.
\<close>

fun well_formed :: "handle set \<Rightarrow> 'm event list \<Rightarrow> bool" where
  "well_formed live [] = True"
| "well_formed live (Connect h # es) = (h \<notin> live \<and> well_formed (insert h live) es)"
| "well_formed live (Inbound h message now broken # es) = (h \<in> live \<and> well_formed live es)"
| "well_formed live (Disconnect h cause # es) = (h \<in> live \<and> well_formed (live - {h}) es)"

text \<open>
  The span of a connection, in the specification's words: a handle is inside its span
  from its registration until its coroutine leaves. \<open>active live es\<close> is the set of the
  handles inside their span after the schedule \<open>es\<close>, when \<open>live\<close> were inside before.
\<close>

fun active :: "handle set \<Rightarrow> 'm event list \<Rightarrow> handle set" where
  "active live [] = live"
| "active live (Connect h # es) = active (insert h live) es"
| "active live (Inbound h message now broken # es) = active live es"
| "active live (Disconnect h cause # es) = active (live - {h}) es"

subsection \<open>The chat message of an inbound payload\<close>

text \<open>
  The specification's side of the comparison: a payload is valid when it is an object
  with the keys \<^verbatim>\<open>text\<close> and \<^verbatim>\<open>sender\<close>, and its chat message has these two values and
  the server's timestamp.
\<close>

definition parsed_message :: "json \<Rightarrow> string \<Rightarrow> json option" where
  "parsed_message data now =
     (case data of
        JObj kvs \<Rightarrow>
          (case map_of kvs ''text'' of
             None \<Rightarrow> None
           | Some t \<Rightarrow>
               (case map_of kvs ''sender'' of
                  None \<Rightarrow> None
                | Some sd \<Rightarrow>
                    Some (JObj [(''text'', t), (''sender'', sd), (''timestamp'', JStr now)])))
      | _ \<Rightarrow> None)"

fun chat_message :: "('m \<Rightarrow> py_error + json) \<Rightarrow> 'm event \<Rightarrow> json option" where
  "chat_message loads (Inbound h message now broken) =
     (case loads message of Inl e \<Rightarrow> None | Inr data \<Rightarrow> parsed_message data now)"
| "chat_message loads (Connect h) = None"
| "chat_message loads (Disconnect h cause) = None"

definition valid_inbound :: "('m \<Rightarrow> py_error + json) \<Rightarrow> 'm event \<Rightarrow> bool" where
  "valid_inbound loads e = (chat_message loads e \<noteq> None)"

text \<open>Whether an event is the registration of the handle \<open>h\<close>.\<close>

fun is_connect :: "handle \<Rightarrow> 'm event \<Rightarrow> bool" where
  "is_connect h (Connect c) = (c = h)"
| "is_connect h (Inbound c message now broken) = False"
| "is_connect h (Disconnect c cause) = False"

subsection \<open>A stand-in for the json library\<close>

text \<open>
  The library's \<^verbatim>\<open>json.loads\<close> and \<^verbatim>\<open>json.dumps\<close> are parameters of the model. Where a
  step is evaluated on a concrete input, the text on the wire is represented by the value
  it encodes: \<open>Inr\<close> is then a \<^verbatim>\<open>json.dumps\<close> that never raises, and \<open>up_to_depth n\<close> is
  the library under a recursion limit, which reads and writes the values nested at most
  \<open>n\<close> levels deep and raises \<^verbatim>\<open>RecursionError\<close> on the others.
\<close>

primrec depth :: "json \<Rightarrow> nat" where
  "depth JNull = 0"
| "depth (JBool b) = 0"
| "depth (JInt i) = 0"
| "depth (JFloat r) = 0"
| "depth (JStr s) = 0"
| "depth (JArr xs) = Suc (fold max (map depth xs) 0)"
| "depth (JObj kvs) = Suc (fold max (map (\<lambda>kv. snd kv) (map (map_prod id depth) kvs)) 0)"

fun nest :: "nat \<Rightarrow> json \<Rightarrow> json" where
  "nest 0 v = v"
| "nest (Suc n) v = JArr [nest n v]"

definition up_to_depth :: "nat \<Rightarrow> json \<Rightarrow> py_error + json" where
  "up_to_depth limit v = (if depth v \<le> limit then Inr v else Inl RecursionError)"

section \<open>Properties\<close>

subsection \<open>What one step does to each part of the state\<close>

lemma process_message_parse_error:
  "loads message = Inl e \<Longrightarrow> fst (process_message loads dumps message now broken s) = s"
  by (simp add: process_message_def)

lemma process_message_rejected:
  "loads message = Inr data \<Longrightarrow> parsed_message data now = None \<Longrightarrow>
   fst (process_message loads dumps message now broken s) = s"
  by (cases data)
    (auto simp: process_message_def has_required_fields_def message_obj_def parsed_message_def
      split: option.splits sum.splits bool.splits)

lemma process_message_accepted:
  "loads message = Inr data \<Longrightarrow> parsed_message data now = Some m \<Longrightarrow>
   process_message loads dumps message now broken s =
     (case dumps (live_payload m) of
        Inl e \<Rightarrow> (s\<lparr>chat_history := add_to_history m (chat_history s)\<rparr>, Processing_error e)
      | Inr w \<Rightarrow> broadcast broken w (s\<lparr>chat_history := add_to_history m (chat_history s)\<rparr>))"
  by (cases data)
    (auto simp: process_message_def has_required_fields_def message_obj_def parsed_message_def
      Let_def split: option.splits sum.splits bool.splits)

lemma process_message_serialised:
  "loads message = Inr data \<Longrightarrow> parsed_message data now = Some m \<Longrightarrow>
   dumps (live_payload m) = Inr w \<Longrightarrow>
   process_message loads dumps message now broken s =
     broadcast broken w (s\<lparr>chat_history := add_to_history m (chat_history s)\<rparr>)"
  by (simp add: process_message_accepted)

lemma process_message_not_serialised:
  "loads message = Inr data \<Longrightarrow> parsed_message data now = Some m \<Longrightarrow>
   dumps (live_payload m) = Inl e \<Longrightarrow>
   process_message loads dumps message now broken s =
     (s\<lparr>chat_history := add_to_history m (chat_history s)\<rparr>, Processing_error e)"
  by (simp add: process_message_accepted)

lemma broadcast_history [simp]: "chat_history (fst (broadcast broken p s)) = chat_history s"
  by (simp add: broadcast_def Let_def)

lemma broadcast_clients [simp]:
  "connected_clients (fst (broadcast broken p s)) = connected_clients s"
  by (simp add: broadcast_def Let_def)

lemma broadcast_sent:
  "sent (fst (broadcast broken p s)) c =
     (if c \<in> connected_clients s then sent s c @ [p] else sent s c)"
  by (simp add: broadcast_def Let_def)

lemma connect_history [simp]: "chat_history (fst (connect dumps h s)) = chat_history s"
  by (simp add: connect_def send_history_def send_def register_def split: sum.splits)

lemma connect_clients [simp]:
  "connected_clients (fst (connect dumps h s)) = insert h (connected_clients s)"
  by (simp add: connect_def send_history_def send_def register_def split: sum.splits)

lemma disconnect_history [simp]: "chat_history (fst (disconnect h cause s)) = chat_history s"
  by (simp add: disconnect_def unregister_def)

lemma disconnect_sent [simp]: "sent (fst (disconnect h cause s)) = sent s"
  by (simp add: disconnect_def unregister_def)

lemma run_append: "run loads dumps (es @ es') s = run loads dumps es' (run loads dumps es s)"
  by (induction es arbitrary: s) simp_all

subsection \<open>The history buffer\<close>

lemma step_history:
  "chat_history (fst (step loads dumps e s)) =
     (case chat_message loads e of
        None \<Rightarrow> chat_history s
      | Some m \<Rightarrow> add_to_history m (chat_history s))"
proof (cases e)
  case (Connect h)
  then show ?thesis by simp
next
  case (Inbound h message now broken)
  show ?thesis
  proof (cases "loads message")
    case (Inl err)
    with Inbound show ?thesis by (simp add: process_message_parse_error)
  next
    case (Inr data)
    with Inbound show ?thesis
      by (cases "parsed_message data now")
        (simp_all add: process_message_rejected process_message_accepted split: sum.splits)
  qed
next
  case (Disconnect h cause)
  then show ?thesis by simp
qed

lemma add_to_history_drop:
  "length hist \<le> 100 \<Longrightarrow> add_to_history m hist = drop (length (hist @ [m]) - 100) (hist @ [m])"
  by (cases hist) (auto simp: add_to_history_def Let_def drop_Cons' le_Suc_eq)

lemma add_to_history_length: "length hist \<le> 100 \<Longrightarrow> length (add_to_history m hist) \<le> 100"
  by (auto simp: add_to_history_def Let_def)

lemma drop_last_append:
  "drop (length (drop (length xs - n) xs @ ys) - n) (drop (length xs - n) xs @ ys) =
   drop (length (xs @ ys) - n) (xs @ ys)"
proof (cases "length xs \<le> n")
  case True
  then show ?thesis by simp
next
  case False
  then have "length (drop (length xs - n) xs @ ys) - n = length ys" by simp
  moreover have "length (xs @ ys) - n = length ys + (length xs - n)" using False by simp
  ultimately show ?thesis by (simp add: add.commute)
qed

text \<open>
  Over any schedule the buffer holds the last 100 of the messages it was given, in the
  order of the steps.
\<close>

lemma run_history:
  "length (chat_history s) \<le> 100 \<Longrightarrow>
   chat_history (run loads dumps es s) =
     drop (length (chat_history s @ List.map_filter (chat_message loads) es) - 100)
       (chat_history s @ List.map_filter (chat_message loads) es)"
proof (induction es arbitrary: s)
  case Nil
  then show ?case by (simp add: List.map_filter_simps)
next
  case (Cons e es)
  show ?case
  proof (cases "chat_message loads e")
    case None
    with Cons show ?thesis by (simp add: step_history List.map_filter_simps)
  next
    case (Some m)
    let ?h = "add_to_history m (chat_history s)"
    let ?ms = "List.map_filter (chat_message loads) es"
    have len: "length ?h \<le> 100" using Cons.prems by (rule add_to_history_length)
    have h: "?h = drop (length (chat_history s @ [m]) - 100) (chat_history s @ [m])"
      using Cons.prems by (rule add_to_history_drop)
    have "chat_history (run loads dumps (e # es) s) = drop (length (?h @ ?ms) - 100) (?h @ ?ms)"
      using Cons.IH [of "fst (step loads dumps e s)"] len Some by (simp add: step_history)
    also have "\<dots> =
        drop (length ((chat_history s @ [m]) @ ?ms) - 100) ((chat_history s @ [m]) @ ?ms)"
      unfolding h by (rule drop_last_append)
    finally show ?thesis using Some by (simp add: List.map_filter_simps)
  qed
qed

lemma run_history_length:
  "length (chat_history s) \<le> 100 \<Longrightarrow> length (chat_history (run loads dumps es s)) \<le> 100"
  by (simp add: run_history)

lemma map_filter_all_valid:
  "\<forall>e \<in> set es. valid_inbound loads e \<Longrightarrow>
   length (List.map_filter (chat_message loads) es) = length es"
  by (induction es) (auto simp: List.map_filter_simps valid_inbound_def)

lemma map_filter_map_Some:
  "(\<And>x. f (g x) = Some (k x)) \<Longrightarrow> List.map_filter f (map g xs) = map k xs"
  by (induction xs) (simp_all add: List.map_filter_simps)

text \<open>
  C1. Starting from an empty history, after a sequence of \<open>N\<close> valid inbound messages
  the buffer has at most 100 entries after every one of them, and at the end it holds
  the last \<open>min N 100\<close> chat messages in the order they were processed; after 101
  messages it holds the second to the last one, the first having been evicted.
\<close>

theorem history_bound:
  assumes "chat_history s = []" and "\<forall>e \<in> set es. valid_inbound loads e"
  shows "(\<forall>k \<le> length es. length (chat_history (run loads dumps (take k es) s)) \<le> 100)
    \<and> length (List.map_filter (chat_message loads) es) = length es
    \<and> chat_history (run loads dumps es s) =
        drop (length es - 100) (List.map_filter (chat_message loads) es)
    \<and> length (chat_history (run loads dumps es s)) = min (length es) 100
    \<and> (length es = 101 \<longrightarrow>
        chat_history (run loads dumps es s) = tl (List.map_filter (chat_message loads) es))"
proof -
  let ?ms = "List.map_filter (chat_message loads) es"
  have len: "length ?ms = length es"
    using assms(2) by (rule map_filter_all_valid)
  have hist: "chat_history (run loads dumps es s) = drop (length es - 100) ?ms"
    using run_history [where s = s and loads = loads and dumps = dumps and es = es] assms(1) len
    by simp
  have bound: "\<forall>k \<le> length es. length (chat_history (run loads dumps (take k es) s)) \<le> 100"
    using assms(1) by (simp add: run_history_length)
  have size: "length (chat_history (run loads dumps es s)) = min (length es) 100"
    using hist len by simp
  have "chat_history (run loads dumps es s) = tl ?ms" if "length es = 101"
    using hist that by (simp add: drop_Suc)
  with bound len hist size show ?thesis by blast
qed

theorem history_bound_witness:
  "chat_history
     (run (\<lambda>m. m) Inr
        (map (\<lambda>i. Inbound 7 (Inr (JObj [(''text'', JInt (int i)), (''sender'', JStr ''A'')]))
           ''T'' {}) [1..<102])
        (fst (connect Inr 7 init))) =
   map (\<lambda>i. JObj [(''text'', JInt (int i)), (''sender'', JStr ''A''), (''timestamp'', JStr ''T'')])
     [2..<102]"
proof -
  let ?g = "\<lambda>i. Inbound 7 (Inr (JObj [(''text'', JInt (int i)), (''sender'', JStr ''A'')])) ''T'' {}"
  let ?k = "\<lambda>i. JObj [(''text'', JInt (int i)), (''sender'', JStr ''A''), (''timestamp'', JStr ''T'')]"
  have msg: "chat_message (\<lambda>m. m) (?g i) = Some (?k i)" for i
    by (simp add: parsed_message_def)
  have empty: "chat_history (fst (connect Inr 7 init)) = []"
    by (simp add: init_def)
  have valid: "\<forall>e \<in> set (map ?g [1..<102]). valid_inbound (\<lambda>m. m) e"
    by (simp add: valid_inbound_def parsed_message_def)
  have stored: "List.map_filter (chat_message (\<lambda>m. m)) (map ?g [1..<102]) = map ?k [1..<102]"
    using msg by (rule map_filter_map_Some)
  have rest: "tl (map ?k [1..<102]) = map ?k [2..<102]"
    by (simp only: map_tl [symmetric] tl_upt Suc_1)
  have count: "length (map ?g [1..<102]) = 101"
    by simp
  have "chat_history (run (\<lambda>m. m) Inr (map ?g [1..<102]) (fst (connect Inr 7 init))) =
      tl (List.map_filter (chat_message (\<lambda>m. m)) (map ?g [1..<102]))"
    by (rule mp [OF history_bound [OF empty valid, THEN conjunct2, THEN conjunct2,
          THEN conjunct2, THEN conjunct2] count])
  then show ?thesis
    by (simp only: stored rest)
qed

lemma parsed_message_object:
  "map_of kvs ''text'' = Some t \<Longrightarrow> map_of kvs ''sender'' = Some sd \<Longrightarrow>
   parsed_message (JObj kvs) now =
     Some (JObj [(''text'', t), (''sender'', sd), (''timestamp'', JStr now)])"
  by (simp add: parsed_message_def)

lemma parsed_message_missing:
  "map_of kvs ''text'' = None \<or> map_of kvs ''sender'' = None \<Longrightarrow>
   parsed_message (JObj kvs) now = None"
  by (auto simp: parsed_message_def split: option.splits)

lemma parsed_message_not_object:
  "\<forall>kvs. data \<noteq> JObj kvs \<Longrightarrow> parsed_message data now = None"
  by (cases data) (simp_all add: parsed_message_def)

lemma broadcast_outcome:
  "snd (broadcast broken p s) =
     (if connected_clients s = {} then No_recipients
      else if connected_clients s \<inter> broken = {} then Broadcast_complete
      else Processing_error ConnectionClosed)"
  by (simp add: broadcast_def Let_def)

lemma depth_nest [simp]: "depth (nest n v) = n + depth v"
  by (induction n) simp_all

subsection \<open>Fan-out\<close>

text \<open>
  C2, as the specification states it, at a valid message whose text is nested as deep as
  \<^verbatim>\<open>json.loads\<close> still reads: the live payload is two levels deeper, \<^verbatim>\<open>json.dumps\<close> raises
  \<^verbatim>\<open>RecursionError\<close> at line 102, and the registered client is sent nothing, although the
  message is in the history.
\<close>

theorem fan_out_counterexample:
  "sent (fst (step (up_to_depth 994) (up_to_depth 994)
      (Inbound 1 (JObj [(''text'', nest 993 (JInt 0)), (''sender'', JStr ''A'')]) ''T'' {})
      (fst (connect (up_to_depth 994) 1 init)))) 1 = []
   \<and> connected_clients (fst (connect (up_to_depth 994) 1 init)) = {1}
   \<and> chat_history (fst (step (up_to_depth 994) (up_to_depth 994)
      (Inbound 1 (JObj [(''text'', nest 993 (JInt 0)), (''sender'', JStr ''A'')]) ''T'' {})
      (fst (connect (up_to_depth 994) 1 init)))) =
     [JObj [(''text'', nest 993 (JInt 0)), (''sender'', JStr ''A''), (''timestamp'', JStr ''T'')]]
   \<and> snd (step (up_to_depth 994) (up_to_depth 994)
      (Inbound 1 (JObj [(''text'', nest 993 (JInt 0)), (''sender'', JStr ''A'')]) ''T'' {})
      (fst (connect (up_to_depth 994) 1 init))) = Processing_error RecursionError"
  by (simp add: process_message_def has_required_fields_def message_obj_def live_payload_def
      add_to_history_def up_to_depth_def connect_def send_history_def register_def init_def
      Let_def)

text \<open>
  C2, amended. When a valid inbound message is processed and \<^verbatim>\<open>json.dumps\<close> serialises
  its live payload, every client that is in the registry at that moment, the sender
  included, has exactly one text added to what it is sent, and that text is the
  serialised live message with the text and the sender of the inbound message and the
  server's timestamp; a client outside the registry is sent nothing.
\<close>

theorem fan_out_complete:
  assumes "loads message = Inr (JObj kvs)"
    and "map_of kvs ''text'' = Some t" and "map_of kvs ''sender'' = Some sd"
    and "dumps (JObj [(''type'', JStr ''message''),
                      (''message'',
                       JObj [(''text'', t), (''sender'', sd), (''timestamp'', JStr now)])]) =
         Inr w"
  shows "(\<forall>c \<in> connected_clients s.
            sent (fst (step loads dumps (Inbound h message now broken) s)) c = sent s c @ [w])
    \<and> (h \<in> connected_clients s \<longrightarrow>
          sent (fst (step loads dumps (Inbound h message now broken) s)) h = sent s h @ [w])
    \<and> (\<forall>c. c \<notin> connected_clients s \<longrightarrow>
          sent (fst (step loads dumps (Inbound h message now broken) s)) c = sent s c)"
proof -
  have p: "parsed_message (JObj kvs) now =
      Some (JObj [(''text'', t), (''sender'', sd), (''timestamp'', JStr now)])"
    using assms(2,3) by (rule parsed_message_object)
  have w: "dumps (live_payload (JObj [(''text'', t), (''sender'', sd), (''timestamp'', JStr now)])) =
      Inr w"
    using assms(4) by (simp add: live_payload_def)
  note pm = process_message_serialised [where loads = loads and message = message
      and dumps = dumps, OF assms(1) p w]
  show ?thesis
    by (simp add: pm broadcast_sent)
qed

theorem fan_out_complete_witness:
  "sent (fst (step (\<lambda>m. m) Inr
      (Inbound 1 (Inr (JObj [(''text'', JStr ''hi''), (''sender'', JStr ''A'')])) ''T'' {})
      (fst (connect Inr 2 (fst (connect Inr 1 init)))))) 1 =
     [JObj [(''type'', JStr ''message''),
            (''message'',
             JObj [(''text'', JStr ''hi''), (''sender'', JStr ''A''), (''timestamp'', JStr ''T'')])]]
   \<and> sent (fst (step (\<lambda>m. m) Inr
      (Inbound 1 (Inr (JObj [(''text'', JStr ''hi''), (''sender'', JStr ''A'')])) ''T'' {})
      (fst (connect Inr 2 (fst (connect Inr 1 init)))))) 2 =
     [JObj [(''type'', JStr ''message''),
            (''message'',
             JObj [(''text'', JStr ''hi''), (''sender'', JStr ''A''), (''timestamp'', JStr ''T'')])]]"
proof -
  let ?s = "fst (connect Inr 2 (fst (connect Inr 1 init))) :: json state"
  let ?e = "Inbound 1 (Inr (JObj [(''text'', JStr ''hi''), (''sender'', JStr ''A'')])) ''T'' {}"
  let ?p = "JObj [(''type'', JStr ''message''),
      (''message'',
       JObj [(''text'', JStr ''hi''), (''sender'', JStr ''A''), (''timestamp'', JStr ''T'')])]"
  have before: "sent ?s c = []" for c
    by (simp add: connect_def send_history_def register_def init_def)
  have member: "1 \<in> connected_clients ?s" "2 \<in> connected_clients ?s"
    by simp_all
  have a: "(\<lambda>m. m) (Inr (JObj [(''text'', JStr ''hi''), (''sender'', JStr ''A'')])
      :: py_error + json) = Inr (JObj [(''text'', JStr ''hi''), (''sender'', JStr ''A'')])"
    by simp
  have b: "map_of [(''text'', JStr ''hi''), (''sender'', JStr ''A'')] ''text'' = Some (JStr ''hi'')"
    by simp
  have c: "map_of [(''text'', JStr ''hi''), (''sender'', JStr ''A'')] ''sender'' = Some (JStr ''A'')"
    by simp
  have d: "(Inr ?p :: py_error + json) = Inr ?p"
    by simp
  note r = fan_out_complete [where loads = "\<lambda>m. m" and dumps = Inr
      and message = "Inr (JObj [(''text'', JStr ''hi''), (''sender'', JStr ''A'')])"
      and h = 1 and now = "''T''" and broken = "{}" and s = ?s, OF a b c d]
  have "sent (fst (step (\<lambda>m. m) Inr ?e ?s)) 1 = sent ?s 1 @ [?p]"
    using r [THEN conjunct1] member(1) by (rule bspec)
  then have one: "sent (fst (step (\<lambda>m. m) Inr ?e ?s)) 1 = [?p]"
    by (simp only: before append_Nil)
  have "sent (fst (step (\<lambda>m. m) Inr ?e ?s)) 2 = sent ?s 2 @ [?p]"
    using r [THEN conjunct1] member(2) by (rule bspec)
  then have two: "sent (fst (step (\<lambda>m. m) Inr ?e ?s)) 2 = [?p]"
    by (simp only: before append_Nil)
  from one two show ?thesis by (rule conjI)
qed

subsection \<open>History replay\<close>

lemma connect_sent:
  "sent (fst (connect dumps h s)) c =
     (if c = h \<and> chat_history s \<noteq> [] then
        (case dumps (history_payload (chat_history s)) of
           Inl e \<Rightarrow> sent s c
         | Inr w \<Rightarrow> sent s c @ [w])
      else sent s c)"
  by (simp add: connect_def send_history_def send_def register_def split: sum.splits)

lemma process_message_sent:
  "\<exists>lives. sent (fst (process_message loads dumps message now broken s)) c = sent s c @ lives
     \<and> (\<forall>p \<in> set lives. \<exists>m. dumps (live_payload m) = Inr p)"
proof (cases "loads message")
  case (Inl e)
  then show ?thesis by (simp add: process_message_parse_error)
next
  case (Inr data)
  show ?thesis
  proof (cases "parsed_message data now")
    case None
    with Inr show ?thesis by (simp add: process_message_rejected)
  next
    case (Some m)
    show ?thesis
    proof (cases "dumps (live_payload m)")
      case (Inl e)
      with Inr Some show ?thesis by (simp add: process_message_not_serialised)
    next
      case w: (Inr w)
      have "sent (fst (process_message loads dumps message now broken s)) c =
          sent s c @ (if c \<in> connected_clients s then [w] else [])"
        using Inr Some w by (simp add: process_message_serialised broadcast_sent)
      moreover have "\<forall>p \<in> set (if c \<in> connected_clients s then [w] else []).
          \<exists>m. dumps (live_payload m) = Inr p"
        using w by auto
      ultimately show ?thesis by blast
    qed
  qed
qed

lemma step_sent:
  assumes "\<not> is_connect c e"
  shows "\<exists>lives. sent (fst (step loads dumps e s)) c = sent s c @ lives
     \<and> (\<forall>p \<in> set lives. \<exists>m. dumps (live_payload m) = Inr p)"
proof (cases e)
  case (Connect h)
  with assms show ?thesis by (simp add: connect_sent)
next
  case (Inbound h message now broken)
  then show ?thesis
    using process_message_sent [where loads = loads and dumps = dumps and message = message
        and now = now and broken = broken and s = s and c = c]
    by simp
next
  case (Disconnect h cause)
  then show ?thesis by simp
qed

lemma run_sent:
  assumes "\<forall>e \<in> set es. \<not> is_connect c e"
  shows "\<exists>lives. sent (run loads dumps es s) c = sent s c @ lives
     \<and> (\<forall>p \<in> set lives. \<exists>m. dumps (live_payload m) = Inr p)"
  using assms
proof (induction es arbitrary: s)
  case Nil
  then show ?case by simp
next
  case (Cons e es)
  from Cons.prems have "\<not> is_connect c e" by simp
  then obtain l1 where l1: "sent (fst (step loads dumps e s)) c = sent s c @ l1"
      "\<forall>p \<in> set l1. \<exists>m. dumps (live_payload m) = Inr p"
    using step_sent [where c = c and e = e and loads = loads and dumps = dumps and s = s]
    by blast
  from Cons.prems have "\<forall>e \<in> set es. \<not> is_connect c e" by simp
  then obtain l2 where l2: "sent (run loads dumps es (fst (step loads dumps e s))) c =
        sent (fst (step loads dumps e s)) c @ l2"
      "\<forall>p \<in> set l2. \<exists>m. dumps (live_payload m) = Inr p"
    using Cons.IH [of "fst (step loads dumps e s)"] by blast
  have "sent (run loads dumps (e # es) s) c = sent s c @ (l1 @ l2)"
    using l1(1) l2(1) by simp
  moreover have "\<forall>p \<in> set (l1 @ l2). \<exists>m. dumps (live_payload m) = Inr p"
    using l1(2) l2(2) by auto
  ultimately show ?case by blast
qed

text \<open>
  C3, as the specification states it, at a buffer that holds one message whose text is
  nested one level short of the deepest that is still broadcast: the history payload is
  one level deeper than the live payload, \<^verbatim>\<open>json.dumps\<close> raises \<^verbatim>\<open>RecursionError\<close> at line
  65, and the client that connects is sent nothing although the buffer is not empty; it
  leaves through line 124 and is unregistered.
\<close>

theorem history_replay_counterexample:
  "chat_history (run (up_to_depth 994) (up_to_depth 994)
      [Connect 1,
       Inbound 1 (JObj [(''text'', nest 992 (JInt 0)), (''sender'', JStr ''A'')]) ''T'' {}]
      init) =
     [JObj [(''text'', nest 992 (JInt 0)), (''sender'', JStr ''A''), (''timestamp'', JStr ''T'')]]
   \<and> outcomes (up_to_depth 994) (up_to_depth 994)
      [Connect 1,
       Inbound 1 (JObj [(''text'', nest 992 (JInt 0)), (''sender'', JStr ''A'')]) ''T'' {},
       Connect 2,
       Disconnect 2 (Caught RecursionError)]
      init =
     [No_history, Broadcast_complete, History_failed RecursionError, Unregistered]
   \<and> sent (run (up_to_depth 994) (up_to_depth 994)
      [Connect 1,
       Inbound 1 (JObj [(''text'', nest 992 (JInt 0)), (''sender'', JStr ''A'')]) ''T'' {},
       Connect 2,
       Disconnect 2 (Caught RecursionError)]
      init) 2 = []"
  by (simp add: process_message_def has_required_fields_def message_obj_def live_payload_def
      history_payload_def add_to_history_def broadcast_def up_to_depth_def connect_def
      send_history_def send_def register_def disconnect_def unregister_def init_def Let_def)

text \<open>
  C3, amended. A client that connects while the buffer holds \<open>M1..Mk\<close>, and whose history
  payload \<^verbatim>\<open>json.dumps\<close> serialises, is sent that one text, the history payload with
  exactly these messages in order; nobody else is sent it, and whatever the client is
  sent afterwards is a serialised live message, so the history comes first. A client
  that connects while the buffer is empty is sent no history payload.
\<close>

theorem history_first:
  assumes "\<forall>e \<in> set es. \<not> is_connect h e"
  shows "(chat_history s \<noteq> [] \<longrightarrow>
        (\<forall>w. dumps (JObj [(''type'', JStr ''history''), (''messages'', JArr (chat_history s))]) =
              Inr w \<longrightarrow>
          (\<exists>lives.
              sent (run loads dumps (Connect h # es) s) h = sent s h @ w # lives
            \<and> (\<forall>p \<in> set lives.
                  \<exists>m. dumps (JObj [(''type'', JStr ''message''), (''message'', m)]) = Inr p))))
    \<and> (chat_history s = [] \<longrightarrow>
        sent (fst (connect dumps h s)) h = sent s h
        \<and> (\<exists>lives.
            sent (run loads dumps (Connect h # es) s) h = sent s h @ lives
          \<and> (\<forall>p \<in> set lives.
                \<exists>m. dumps (JObj [(''type'', JStr ''message''), (''message'', m)]) = Inr p)))
    \<and> (\<forall>c. c \<noteq> h \<longrightarrow> sent (fst (connect dumps h s)) c = sent s c)"
proof -
  obtain lives where lives:
      "sent (run loads dumps es (fst (connect dumps h s))) h =
        sent (fst (connect dumps h s)) h @ lives"
      "\<forall>p \<in> set lives. \<exists>m. dumps (live_payload m) = Inr p"
    using run_sent [OF assms, where loads = loads and dumps = dumps
        and s = "fst (connect dumps h s)"]
    by blast
  have "sent (run loads dumps (Connect h # es) s) h = sent (fst (connect dumps h s)) h @ lives"
    using lives(1) by simp
  moreover have "\<forall>p \<in> set lives.
      \<exists>m. dumps (JObj [(''type'', JStr ''message''), (''message'', m)]) = Inr p"
    using lives(2) by (simp add: live_payload_def)
  ultimately show ?thesis
    by (auto simp: connect_sent history_payload_def)
qed

theorem history_first_witness:
  "(\<exists>lives.
      sent (run (\<lambda>m. m) Inr
         [Connect 2,
          Inbound 1 (Inr (JObj [(''text'', JStr ''yo''), (''sender'', JStr ''A'')])) ''U'' {}]
         (run (\<lambda>m. m) Inr
           [Connect 1,
            Inbound 1 (Inr (JObj [(''text'', JStr ''hi''), (''sender'', JStr ''A'')])) ''T'' {}]
           init)) 2 =
      JObj [(''type'', JStr ''history''),
            (''messages'',
             JArr [JObj [(''text'', JStr ''hi''), (''sender'', JStr ''A''),
                         (''timestamp'', JStr ''T'')]])] # lives
      \<and> (\<forall>p \<in> set lives.
            \<exists>m. (Inr (JObj [(''type'', JStr ''message''), (''message'', m)]) :: py_error + json) =
              Inr p))"
proof -
  let ?s = "run (\<lambda>m. m) Inr
      [Connect 1,
       Inbound 1 (Inr (JObj [(''text'', JStr ''hi''), (''sender'', JStr ''A'')])) ''T'' {}] init
      :: json state"
  let ?es = "[Inbound 1 (Inr (JObj [(''text'', JStr ''yo''), (''sender'', JStr ''A'')])) ''U'' {}]"
  let ?w = "JObj [(''type'', JStr ''history''),
      (''messages'',
       JArr [JObj [(''text'', JStr ''hi''), (''sender'', JStr ''A''), (''timestamp'', JStr ''T'')]])]"
  have quiet: "\<forall>e \<in> set ?es. \<not> is_connect 2 e"
    by simp
  have hist: "chat_history ?s =
      [JObj [(''text'', JStr ''hi''), (''sender'', JStr ''A''), (''timestamp'', JStr ''T'')]]"
    by (simp add: process_message_def has_required_fields_def message_obj_def
        add_to_history_def init_def Let_def)
  have none: "sent ?s 2 = []"
    by (simp add: process_message_def has_required_fields_def message_obj_def broadcast_def
        connect_def send_history_def register_def init_def Let_def)
  have nonempty: "chat_history ?s \<noteq> []"
    by (simp only: hist) simp
  have dumped: "(Inr (JObj [(''type'', JStr ''history''), (''messages'', JArr (chat_history ?s))])
      :: py_error + json) = Inr ?w"
    by (simp only: hist)
  show ?thesis
    using history_first [OF quiet, where s = ?s and loads = "\<lambda>m. m" and dumps = Inr,
        THEN conjunct1, THEN mp, OF nonempty, THEN spec, THEN mp, OF dumped]
    by (simp only: none append_Nil)
qed

subsection \<open>Unregistering\<close>

text \<open>
  C4, as the specification states it, at a handle that is not in the registry: the
  removal raises \<^verbatim>\<open>KeyError\<close>.
\<close>

theorem unregister_absent_counterexample:
  "unregister 1 (fst (connect Inr 2 init)) = Inl KeyError"
  by (simp add: unregister_def connect_def send_history_def register_def init_def)

text \<open>
  C4, amended. Unregistering a handle that is not in the registry raises \<^verbatim>\<open>KeyError\<close>,
  which leaves the handler, and changes nothing in the state; unregistering a registered
  handle removes that handle alone and leaves history and sends as they were, and a
  second removal of it raises \<^verbatim>\<open>KeyError\<close>.
\<close>

theorem unregister_raises_when_absent:
  "(h \<notin> connected_clients s \<longrightarrow>
      unregister h s = Inl KeyError
      \<and> disconnect h cause s = (s, Handler_raised KeyError))
   \<and> (h \<in> connected_clients s \<longrightarrow>
      (\<exists>s1. unregister h s = Inr s1
        \<and> disconnect h cause s = (s1, Unregistered)
        \<and> connected_clients s1 = connected_clients s - {h}
        \<and> chat_history s1 = chat_history s
        \<and> sent s1 = sent s
        \<and> unregister h s1 = Inl KeyError))"
  by (simp add: unregister_def disconnect_def)

theorem unregister_raises_when_absent_witness:
  "unregister 1 (fst (connect Inr 2 init)) = Inl KeyError
   \<and> disconnect 1 Stream_ended (fst (connect Inr 2 init)) =
        (fst (connect Inr 2 init), Handler_raised KeyError)
   \<and> (\<exists>s1. unregister 2 (fst (connect Inr 2 init)) = Inr s1
        \<and> disconnect 2 Stream_ended (fst (connect Inr 2 init)) = (s1, Unregistered)
        \<and> connected_clients s1 = connected_clients (fst (connect Inr 2 init)) - {2}
        \<and> chat_history s1 = chat_history (fst (connect Inr 2 init))
        \<and> sent s1 = sent (fst (connect Inr 2 init))
        \<and> unregister 2 s1 = Inl KeyError)"
proof -
  have absent: "1 \<notin> connected_clients (fst (connect Inr 2 init))"
    by (simp add: init_def)
  have present: "2 \<in> connected_clients (fst (connect Inr 2 init))"
    by simp
  show ?thesis
    using unregister_raises_when_absent [of 1 "fst (connect Inr 2 init)" Stream_ended,
        THEN conjunct1, THEN mp, OF absent]
      unregister_raises_when_absent [of 2 "fst (connect Inr 2 init)" Stream_ended,
        THEN conjunct2, THEN mp, OF present]
    by blast
qed

lemma parsed_message_lacking:
  "\<forall>kvs. data = JObj kvs \<longrightarrow> map_of kvs ''text'' = None \<or> map_of kvs ''sender'' = None \<Longrightarrow>
   parsed_message data now = None"
  by (cases data) (auto simp: parsed_message_def split: option.splits)

lemma process_message_outcome_parse_error:
  "loads message = Inl e \<Longrightarrow>
   snd (process_message loads dumps message now broken s) =
     (if e = JSONDecodeError then Invalid_JSON else Processing_error e)"
  by (simp add: process_message_def)

lemma process_message_outcome_missing:
  "loads message = Inr (JObj kvs) \<Longrightarrow>
   map_of kvs ''text'' = None \<or> map_of kvs ''sender'' = None \<Longrightarrow>
   snd (process_message loads dumps message now broken s) = Missing_fields"
  by (cases "map_of kvs ''text''") (auto simp: process_message_def has_required_fields_def)

lemma add_to_history_last: "last (add_to_history m hist) = m"
  by (cases hist) (auto simp: add_to_history_def Let_def)

lemma process_message_outcome_not_object:
  "loads message = Inr data \<Longrightarrow> \<forall>kvs. data \<noteq> JObj kvs \<Longrightarrow>
   snd (process_message loads dumps message now broken s) = Missing_fields
   \<or> snd (process_message loads dumps message now broken s) = Processing_error TypeError"
  by (cases data)
    (auto simp: process_message_def has_required_fields_def message_obj_def
      split: sum.splits bool.splits)

subsection \<open>Payloads that are dropped\<close>

text \<open>
  C5, as the specification states it, at the payload \<^verbatim>\<open>{"text": 5, "sender": null}\<close>,
  whose fields are not strings: it is stored in the history and broadcast.
\<close>

theorem non_string_fields_counterexample:
  "chat_history (fst (process_message (\<lambda>m. m) Inr
       (Inr (JObj [(''text'', JInt 5), (''sender'', JNull)])) ''T'' {} (fst (connect Inr 1 init)))) =
     [JObj [(''text'', JInt 5), (''sender'', JNull), (''timestamp'', JStr ''T'')]]
   \<and> sent (fst (process_message (\<lambda>m. m) Inr
       (Inr (JObj [(''text'', JInt 5), (''sender'', JNull)])) ''T'' {} (fst (connect Inr 1 init)))) 1 =
     [JObj [(''type'', JStr ''message''),
            (''message'',
             JObj [(''text'', JInt 5), (''sender'', JNull), (''timestamp'', JStr ''T'')])]]"
  by (simp add: process_message_def has_required_fields_def message_obj_def broadcast_def
      add_to_history_def live_payload_def connect_def send_history_def register_def init_def
      Let_def)

text \<open>
  C5, amended. A payload is discarded, with no change to the history and nothing sent,
  when it does not parse, when it is not an object, or when it is an object without the
  key \<^verbatim>\<open>text\<close> or without the key \<^verbatim>\<open>sender\<close>.
\<close>

theorem payload_discarded:
  "(loads message = Inl e \<longrightarrow> fst (process_message loads dumps message now broken s) = s)
   \<and> (loads message = Inr data
        \<and> (\<forall>kvs. data = JObj kvs \<longrightarrow> map_of kvs ''text'' = None \<or> map_of kvs ''sender'' = None)
      \<longrightarrow> fst (process_message loads dumps message now broken s) = s)"
proof (intro conjI impI)
  assume "loads message = Inl e"
  then show "fst (process_message loads dumps message now broken s) = s"
    by (rule process_message_parse_error)
next
  assume "loads message = Inr data
    \<and> (\<forall>kvs. data = JObj kvs \<longrightarrow> map_of kvs ''text'' = None \<or> map_of kvs ''sender'' = None)"
  then show "fst (process_message loads dumps message now broken s) = s"
    by (simp add: process_message_rejected parsed_message_lacking)
qed

theorem payload_discarded_witness:
  "fst (process_message (\<lambda>m. m) Inr (Inl JSONDecodeError) ''T'' {} (fst (connect Inr 1 init))) =
     fst (connect Inr 1 init)
   \<and> fst (process_message (\<lambda>m. m) Inr (Inr (JObj [(''text'', JStr ''hi'')])) ''T'' {}
        (fst (connect Inr 1 init))) = fst (connect Inr 1 init)
   \<and> fst (process_message (\<lambda>m. m) Inr (Inr (JArr [JStr ''text'', JStr ''sender''])) ''T'' {}
        (fst (connect Inr 1 init))) = fst (connect Inr 1 init)"
proof -
  let ?s = "fst (connect Inr 1 init) :: json state"
  have parse: "(\<lambda>m. m) (Inl JSONDecodeError :: py_error + json) = Inl JSONDecodeError"
    by simp
  have one: "fst (process_message (\<lambda>m. m) Inr (Inl JSONDecodeError) ''T'' {} ?s) = ?s"
    by (rule payload_discarded [where loads = "\<lambda>m. m" and dumps = Inr
          and message = "Inl JSONDecodeError" and e = JSONDecodeError and now = "''T''"
          and broken = "{}" and s = ?s, THEN conjunct1, THEN mp, OF parse])
  have lacking: "(\<lambda>m. m) (Inr (JObj [(''text'', JStr ''hi'')]) :: py_error + json) =
        Inr (JObj [(''text'', JStr ''hi'')])
      \<and> (\<forall>kvs. JObj [(''text'', JStr ''hi'')] = JObj kvs \<longrightarrow>
            map_of kvs ''text'' = None \<or> map_of kvs ''sender'' = None)"
    by auto
  have two: "fst (process_message (\<lambda>m. m) Inr (Inr (JObj [(''text'', JStr ''hi'')])) ''T'' {} ?s) =
      ?s"
    by (rule payload_discarded [where loads = "\<lambda>m. m" and dumps = Inr
          and message = "Inr (JObj [(''text'', JStr ''hi'')])" and now = "''T''"
          and broken = "{}" and s = ?s, THEN conjunct2, THEN mp, OF lacking])
  have list: "(\<lambda>m. m) (Inr (JArr [JStr ''text'', JStr ''sender'']) :: py_error + json) =
        Inr (JArr [JStr ''text'', JStr ''sender''])
      \<and> (\<forall>kvs. JArr [JStr ''text'', JStr ''sender''] = JObj kvs \<longrightarrow>
            map_of kvs ''text'' = None \<or> map_of kvs ''sender'' = None)"
    by auto
  have three: "fst (process_message (\<lambda>m. m) Inr (Inr (JArr [JStr ''text'', JStr ''sender'']))
      ''T'' {} ?s) = ?s"
    by (rule payload_discarded [where loads = "\<lambda>m. m" and dumps = Inr
          and message = "Inr (JArr [JStr ''text'', JStr ''sender''])" and now = "''T''"
          and broken = "{}" and s = ?s, THEN conjunct2, THEN mp, OF list])
  from one two three show ?thesis by blast
qed

text \<open>
  C6. A payload that does not parse, or that parses to a value that is not an object
  with both keys \<^verbatim>\<open>text\<close> and \<^verbatim>\<open>sender\<close>, leaves the whole state as it was (registry,
  history, sends). The turn ends in a log entry: invalid JSON for a decoding error,
  missing fields for an object without one of the keys, a processing error otherwise.
  The loop goes on: the rest of the schedule runs from the same state.
\<close>

theorem bad_payload_isolated:
  assumes "loads message = Inl e
    \<or> (\<exists>data. loads message = Inr data
          \<and> (\<forall>kvs. data = JObj kvs \<longrightarrow>
                map_of kvs ''text'' = None \<or> map_of kvs ''sender'' = None))"
  shows "fst (step loads dumps (Inbound h message now broken) s) = s
    \<and> (snd (step loads dumps (Inbound h message now broken) s) = Invalid_JSON
        \<or> snd (step loads dumps (Inbound h message now broken) s) = Missing_fields
        \<or> (\<exists>err. snd (step loads dumps (Inbound h message now broken) s) = Processing_error err))
    \<and> (loads message = Inl JSONDecodeError \<longrightarrow>
          snd (step loads dumps (Inbound h message now broken) s) = Invalid_JSON)
    \<and> (\<forall>kvs. loads message = Inr (JObj kvs) \<longrightarrow>
          snd (step loads dumps (Inbound h message now broken) s) = Missing_fields)
    \<and> run loads dumps (Inbound h message now broken # es) s = run loads dumps es s
    \<and> outcomes loads dumps (Inbound h message now broken # es) s =
        snd (step loads dumps (Inbound h message now broken) s) # outcomes loads dumps es s"
  using assms
proof
  assume "loads message = Inl e"
  then show ?thesis
    by (simp add: process_message_parse_error process_message_outcome_parse_error)
next
  assume "\<exists>data. loads message = Inr data
    \<and> (\<forall>kvs. data = JObj kvs \<longrightarrow> map_of kvs ''text'' = None \<or> map_of kvs ''sender'' = None)"
  then obtain data where d: "loads message = Inr data"
      "\<forall>kvs. data = JObj kvs \<longrightarrow> map_of kvs ''text'' = None \<or> map_of kvs ''sender'' = None"
    by blast
  from d(2) have none: "parsed_message data now = None"
    by (rule parsed_message_lacking)
  have same: "fst (process_message loads dumps message now broken s) = s"
    using d(1) none by (rule process_message_rejected)
  have object: "snd (process_message loads dumps message now broken s) = Missing_fields"
    if "loads message = Inr (JObj kvs)" for kvs
    using that d by (simp add: process_message_outcome_missing)
  have kind: "snd (process_message loads dumps message now broken s) = Missing_fields
      \<or> snd (process_message loads dumps message now broken s) = Processing_error TypeError"
  proof (cases "\<exists>kvs. data = JObj kvs")
    case True
    with d(1) object show ?thesis by auto
  next
    case False
    with d(1) show ?thesis by (simp add: process_message_outcome_not_object)
  qed
  from d(1) same object kind show ?thesis by auto
qed

theorem bad_payload_isolated_witness:
  "run (\<lambda>m. m) Inr
     [Inbound 1 (Inl JSONDecodeError) ''T'' {},
      Inbound 1 (Inr (JObj [(''text'', JStr ''hi'')])) ''U'' {}]
     (fst (connect Inr 1 init)) = fst (connect Inr 1 init)
   \<and> outcomes (\<lambda>m. m) Inr
     [Inbound 1 (Inl JSONDecodeError) ''T'' {},
      Inbound 1 (Inr (JObj [(''text'', JStr ''hi'')])) ''U'' {}]
     (fst (connect Inr 1 init)) = [Invalid_JSON, Missing_fields]"
proof -
  let ?s = "fst (connect Inr 1 init)"
  let ?bad = "Inbound 1 (Inr (JObj [(''text'', JStr ''hi'')])) ''U'' {}"
  have a: "(Inl JSONDecodeError :: py_error + json) = Inl JSONDecodeError
    \<or> (\<exists>data. (Inl JSONDecodeError :: py_error + json) = Inr data
          \<and> (\<forall>kvs. data = JObj kvs \<longrightarrow>
                map_of kvs ''text'' = None \<or> map_of kvs ''sender'' = None))"
    by simp
  have b: "(Inr (JObj [(''text'', JStr ''hi'')]) :: py_error + json) = Inl e
    \<or> (\<exists>data. (Inr (JObj [(''text'', JStr ''hi'')]) :: py_error + json) = Inr data
          \<and> (\<forall>kvs. data = JObj kvs \<longrightarrow>
                map_of kvs ''text'' = None \<or> map_of kvs ''sender'' = None))" for e
    by auto
  note first = bad_payload_isolated [where loads = "\<lambda>m. m" and dumps = Inr and h = 1 and now = "''T''"
      and broken = "{}" and s = ?s and es = "[?bad]", OF a]
  note second = bad_payload_isolated [where loads = "\<lambda>m. m" and dumps = Inr and h = 1 and now = "''U''"
      and broken = "{}" and s = ?s and es = "[]", OF b]
  from first second show ?thesis by simp
qed

lemma has_required_fields_True:
  "has_required_fields data = Inr True \<Longrightarrow> message_obj data now = Inr m \<Longrightarrow>
   \<exists>kvs t sd. data = JObj kvs \<and> map_of kvs ''text'' = Some t \<and> map_of kvs ''sender'' = Some sd
     \<and> m = JObj [(''text'', t), (''sender'', sd), (''timestamp'', JStr now)]"
  by (cases data) (auto simp: message_obj_def split: option.splits)

subsection \<open>The stored message\<close>

text \<open>
  C8. A payload that passes the check of line 81 and from which lines 84 to 88 build a
  message is an object with the keys \<^verbatim>\<open>text\<close> and \<^verbatim>\<open>sender\<close>, and the message has exactly
  three fields: these two values and the server's clock reading as timestamp. This
  message is what is appended to the history, and what is broadcast is the serialised
  live payload of this message, or nothing when \<^verbatim>\<open>json.dumps\<close> raises; no other field of
  the payload, a timestamp of the client's included, has any part in it.
\<close>

theorem message_fields:
  assumes "loads message = Inr data"
    and "has_required_fields data = Inr True" and "message_obj data now = Inr m"
  shows "\<exists>kvs t sd. data = JObj kvs
      \<and> map_of kvs ''text'' = Some t \<and> map_of kvs ''sender'' = Some sd
      \<and> m = JObj [(''text'', t), (''sender'', sd), (''timestamp'', JStr now)]
      \<and> chat_history (fst (process_message loads dumps message now broken s)) =
          add_to_history m (chat_history s)
      \<and> last (chat_history (fst (process_message loads dumps message now broken s))) = m
      \<and> (case dumps (JObj [(''type'', JStr ''message''), (''message'', m)]) of
            Inl e \<Rightarrow> sent (fst (process_message loads dumps message now broken s)) = sent s
          | Inr w \<Rightarrow>
              \<forall>c. sent (fst (process_message loads dumps message now broken s)) c =
                (if c \<in> connected_clients s then sent s c @ [w] else sent s c))"
proof -
  obtain kvs t sd where d: "data = JObj kvs" "map_of kvs ''text'' = Some t"
      "map_of kvs ''sender'' = Some sd"
      "m = JObj [(''text'', t), (''sender'', sd), (''timestamp'', JStr now)]"
    using has_required_fields_True [OF assms(2,3)] by blast
  have p: "parsed_message data now = Some m"
    using d by (simp add: parsed_message_object)
  note pm = process_message_accepted [where loads = loads and message = message
      and dumps = dumps, OF assms(1) p]
  have "chat_history (fst (process_message loads dumps message now broken s)) =
      add_to_history m (chat_history s)"
    by (simp add: pm split: sum.splits)
  moreover have "last (chat_history (fst (process_message loads dumps message now broken s))) = m"
    by (simp add: pm add_to_history_last split: sum.splits)
  moreover have "case dumps (JObj [(''type'', JStr ''message''), (''message'', m)]) of
      Inl e \<Rightarrow> sent (fst (process_message loads dumps message now broken s)) = sent s
    | Inr w \<Rightarrow>
        \<forall>c. sent (fst (process_message loads dumps message now broken s)) c =
          (if c \<in> connected_clients s then sent s c @ [w] else sent s c)"
    by (simp add: pm broadcast_sent live_payload_def split: sum.splits)
  ultimately show ?thesis using d by blast
qed

theorem message_fields_witness:
  "chat_history (fst (process_message (\<lambda>m. m) Inr
      (Inr (JObj [(''text'', JStr ''hi''), (''sender'', JStr ''A''),
                  (''timestamp'', JStr ''1999''), (''admin'', JBool True)]))
      ''T'' {} (fst (connect Inr 1 init)))) =
     [JObj [(''text'', JStr ''hi''), (''sender'', JStr ''A''), (''timestamp'', JStr ''T'')]]
   \<and> sent (fst (process_message (\<lambda>m. m) Inr
      (Inr (JObj [(''text'', JStr ''hi''), (''sender'', JStr ''A''),
                  (''timestamp'', JStr ''1999''), (''admin'', JBool True)]))
      ''T'' {} (fst (connect Inr 1 init)))) 1 =
     [JObj [(''type'', JStr ''message''),
            (''message'',
             JObj [(''text'', JStr ''hi''), (''sender'', JStr ''A''), (''timestamp'', JStr ''T'')])]]"
proof -
  let ?d = "JObj [(''text'', JStr ''hi''), (''sender'', JStr ''A''),
      (''timestamp'', JStr ''1999''), (''admin'', JBool True)]"
  let ?m = "JObj [(''text'', JStr ''hi''), (''sender'', JStr ''A''), (''timestamp'', JStr ''T'')]"
  let ?s = "fst (connect Inr 1 init) :: json state"
  have a: "(\<lambda>m. m) (Inr ?d :: py_error + json) = Inr ?d"
    by simp
  have b: "has_required_fields ?d = Inr True"
    by (simp add: has_required_fields_def)
  have c: "message_obj ?d ''T'' = Inr ?m"
    by (simp add: message_obj_def)
  have s: "chat_history ?s = []" "sent ?s 1 = []" "1 \<in> connected_clients ?s"
    by (simp_all add: connect_sent init_def)
  obtain kvs t sd where r:
      "chat_history (fst (process_message (\<lambda>m. m) Inr (Inr ?d) ''T'' {} ?s)) =
        add_to_history ?m (chat_history ?s)"
      "case (Inr (JObj [(''type'', JStr ''message''), (''message'', ?m)]) :: py_error + json) of
         Inl e \<Rightarrow> sent (fst (process_message (\<lambda>m. m) Inr (Inr ?d) ''T'' {} ?s)) = sent ?s
       | Inr w \<Rightarrow>
           \<forall>c. sent (fst (process_message (\<lambda>m. m) Inr (Inr ?d) ''T'' {} ?s)) c =
             (if c \<in> connected_clients ?s then sent ?s c @ [w] else sent ?s c)"
    using message_fields [where loads = "\<lambda>m. m" and dumps = Inr and message = "Inr ?d"
        and broken = "{}" and s = ?s, OF a b c]
    by blast
  from r(1) have "chat_history (fst (process_message (\<lambda>m. m) Inr (Inr ?d) ''T'' {} ?s)) = [?m]"
    by (simp only: s add_to_history_def Let_def) simp
  moreover
  have "\<forall>c. sent (fst (process_message (\<lambda>m. m) Inr (Inr ?d) ''T'' {} ?s)) c =
      (if c \<in> connected_clients ?s
       then sent ?s c @ [JObj [(''type'', JStr ''message''), (''message'', ?m)]]
       else sent ?s c)"
    by (rule r(2) [unfolded sum.case])
  then have "sent (fst (process_message (\<lambda>m. m) Inr (Inr ?d) ''T'' {} ?s)) 1 =
      (if 1 \<in> connected_clients ?s
       then sent ?s 1 @ [JObj [(''type'', JStr ''message''), (''message'', ?m)]]
       else sent ?s 1)"
    by (rule spec)
  then have "sent (fst (process_message (\<lambda>m. m) Inr (Inr ?d) ''T'' {} ?s)) 1 =
      [JObj [(''type'', JStr ''message''), (''message'', ?m)]]"
    by (simp only: s if_True append_Nil)
  ultimately show ?thesis by (rule conjI)
qed

subsection \<open>Payloads that are not objects\<close>

text \<open>
  C10. A payload that parses to something other than an object (a number, a string, a
  list, a boolean, null) leaves the whole state as it was, is logged as missing fields
  or as a processing error with \<^verbatim>\<open>TypeError\<close>, and the loop goes on. For a string that
  contains both \<^verbatim>\<open>text\<close> and \<^verbatim>\<open>sender\<close> the check of line 81 succeeds, the construction
  of the message raises \<^verbatim>\<open>TypeError\<close>, and the error is caught.
\<close>

theorem non_object_payload_harmless:
  assumes "loads message = Inr data" and "\<forall>kvs. data \<noteq> JObj kvs"
  shows "fst (step loads dumps (Inbound h message now broken) s) = s
    \<and> (snd (step loads dumps (Inbound h message now broken) s) = Missing_fields
        \<or> snd (step loads dumps (Inbound h message now broken) s) = Processing_error TypeError)
    \<and> run loads dumps (Inbound h message now broken # es) s = run loads dumps es s
    \<and> (\<forall>str. data = JStr str \<and> str_contains str ''text'' \<and> str_contains str ''sender''
          \<longrightarrow> has_required_fields data = Inr True
            \<and> message_obj data now = Inl TypeError
            \<and> snd (step loads dumps (Inbound h message now broken) s) = Processing_error TypeError)"
proof -
  have "parsed_message data now = None"
    using assms(2) by (rule parsed_message_not_object)
  then have same: "fst (step loads dumps (Inbound h message now broken) s) = s"
    using assms(1) by (simp add: process_message_rejected)
  have out: "snd (step loads dumps (Inbound h message now broken) s) = Missing_fields
      \<or> snd (step loads dumps (Inbound h message now broken) s) = Processing_error TypeError"
    using assms by (cases data)
      (auto simp: process_message_def has_required_fields_def message_obj_def
        split: sum.splits bool.splits)
  have str: "has_required_fields data = Inr True
      \<and> message_obj data now = Inl TypeError
      \<and> snd (step loads dumps (Inbound h message now broken) s) = Processing_error TypeError"
    if "data = JStr str \<and> str_contains str ''text'' \<and> str_contains str ''sender''" for str
    using that assms(1)
    by (simp add: process_message_def has_required_fields_def message_obj_def)
  have cont: "run loads dumps (Inbound h message now broken # es) s = run loads dumps es s"
    using same by simp
  from same out cont str show ?thesis by blast
qed

theorem non_object_payload_harmless_witness:
  "fst (step (\<lambda>m. m) Inr (Inbound 1 (Inr (JStr ''text sender'')) ''T'' {}) (fst (connect Inr 1 init))) =
     fst (connect Inr 1 init)
   \<and> has_required_fields (JStr ''text sender'') = Inr True
   \<and> message_obj (JStr ''text sender'') ''T'' = Inl TypeError
   \<and> snd (step (\<lambda>m. m) Inr (Inbound 1 (Inr (JStr ''text sender'')) ''T'' {}) (fst (connect Inr 1 init))) =
     Processing_error TypeError"
proof -
  have a: "(\<lambda>m. m) (Inr (JStr ''text sender'') :: py_error + json) = Inr (JStr ''text sender'')"
    by simp
  have b: "\<forall>kvs. JStr ''text sender'' \<noteq> JObj kvs"
    by simp
  have c: "JStr ''text sender'' = JStr ''text sender''
      \<and> str_contains ''text sender'' ''text'' \<and> str_contains ''text sender'' ''sender''"
    by simp
  note r = non_object_payload_harmless [where loads = "\<lambda>m. m" and dumps = Inr
      and message = "Inr (JStr ''text sender'')" and h = 1 and now = "''T''" and broken = "{}"
      and s = "fst (connect Inr 1 init)" and es = "[]", OF a b]
  from r have "fst (step (\<lambda>m. m) Inr (Inbound 1 (Inr (JStr ''text sender'')) ''T'' {})
      (fst (connect Inr 1 init))) = fst (connect Inr 1 init)"
    by (rule conjunct1)
  moreover from r [THEN conjunct2, THEN conjunct2, THEN conjunct2, THEN spec,
      of "''text sender''", THEN mp, OF c]
  have "has_required_fields (JStr ''text sender'') = Inr True
      \<and> message_obj (JStr ''text sender'') ''T'' = Inl TypeError
      \<and> snd (step (\<lambda>m. m) Inr (Inbound 1 (Inr (JStr ''text sender'')) ''T'' {}) (fst (connect Inr 1 init))) =
        Processing_error TypeError" .
  ultimately show ?thesis by (rule conjI)
qed

subsection \<open>The span of a connection\<close>

lemma process_message_clients [simp]:
  "connected_clients (fst (process_message loads dumps message now broken s)) = connected_clients s"
proof (cases "loads message")
  case (Inl e)
  then show ?thesis by (simp add: process_message_parse_error)
next
  case (Inr data)
  then show ?thesis
    by (cases "parsed_message data now")
      (simp_all add: process_message_rejected process_message_accepted split: sum.splits)
qed

lemma active_append: "active live (es @ es') = active (active live es) es'"
  by (induction live es rule: active.induct) simp_all

lemma well_formed_append:
  "well_formed live (es @ es') = (well_formed live es \<and> well_formed (active live es) es')"
  by (induction live es rule: well_formed.induct) simp_all

lemma well_formed_take: "well_formed live es \<Longrightarrow> well_formed live (take k es)"
  using well_formed_append [of live "take k es" "drop k es"] by simp

lemma run_clients:
  "well_formed (connected_clients s) es \<Longrightarrow>
   connected_clients (run loads dumps es s) = active (connected_clients s) es"
proof (induction es arbitrary: s)
  case Nil
  then show ?case by simp
next
  case (Cons e es)
  then show ?case
    by (cases e) (simp_all add: disconnect_def unregister_def)
qed

lemma step_well_formed:
  assumes "well_formed (connected_clients s) (e # es)"
  shows "well_formed (connected_clients (fst (step loads dumps e s))) es
    \<and> (\<forall>err. snd (step loads dumps e s) \<noteq> Handler_raised err)"
proof (cases e)
  case (Connect h)
  have "snd (connect dumps h s) \<noteq> Handler_raised err" for err
    by (simp add: connect_def send_history_def split: sum.splits)
  with assms Connect show ?thesis by simp
next
  case (Inbound h message now broken)
  have "snd (process_message loads dumps message now broken s) \<noteq> Handler_raised err" for err
    by (auto simp: process_message_def broadcast_def Let_def split: sum.splits bool.splits)
  with assms Inbound show ?thesis by simp
next
  case (Disconnect h cause)
  with assms show ?thesis by (simp add: disconnect_def unregister_def)
qed

lemma outcomes_no_raise:
  "well_formed (connected_clients s) es \<Longrightarrow>
   \<forall>out \<in> set (outcomes loads dumps es s). \<forall>err. out \<noteq> Handler_raised err"
proof (induction es arbitrary: s)
  case Nil
  then show ?case by simp
next
  case (Cons e es)
  from step_well_formed [OF Cons.prems, of loads]
  have wf: "well_formed (connected_clients (fst (step loads dumps e s))) es"
    and ok: "\<forall>err. snd (step loads dumps e s) \<noteq> Handler_raised err"
    by blast+
  from Cons.IH [OF wf] ok show ?case by simp
qed

lemma step_sent_outside:
  "c \<notin> connected_clients s \<Longrightarrow> \<not> is_connect c e \<Longrightarrow> sent (fst (step loads dumps e s)) c = sent s c"
proof (cases e)
  case (Connect h)
  assume "\<not> is_connect c e"
  with Connect show ?thesis by (simp add: connect_sent)
next
  case (Inbound h message now broken)
  assume out: "c \<notin> connected_clients s"
  show ?thesis
  proof (cases "loads message")
    case (Inl err)
    with Inbound show ?thesis by (simp add: process_message_parse_error)
  next
    case (Inr data)
    with Inbound out show ?thesis
      by (cases "parsed_message data now")
        (simp_all add: process_message_rejected process_message_accepted broadcast_sent
          split: sum.splits)
  qed
next
  case (Disconnect h cause)
  then show ?thesis by simp
qed

text \<open>
  C9. In a well-formed schedule the registry is, after every step, the set of the handles
  whose coroutine has registered and has not left; the \<^verbatim>\<open>finally\<close> block never raises; a
  handle is in the registry right after its registration and before and after each of
  its turns of the loop, whatever the turn raised and caught, and it is out of the
  registry right after it leaves, whatever made it leave; and a handle outside its span
  is sent nothing by any step but its own registration.
\<close>

theorem registry_span:
  assumes "well_formed (connected_clients s) es"
  shows "(\<forall>k \<le> length es.
          connected_clients (run loads dumps (take k es) s) = active (connected_clients s) (take k es))
    \<and> (\<forall>out \<in> set (outcomes loads dumps es s). \<forall>err. out \<noteq> Handler_raised err)
    \<and> (\<forall>k < length es. \<forall>h.
          (es ! k = Connect h \<longrightarrow> h \<in> connected_clients (run loads dumps (take (Suc k) es) s))
        \<and> (\<forall>message now broken. es ! k = Inbound h message now broken \<longrightarrow>
              h \<in> connected_clients (run loads dumps (take k es) s)
            \<and> h \<in> connected_clients (run loads dumps (take (Suc k) es) s))
        \<and> (\<forall>cause. es ! k = Disconnect h cause \<longrightarrow>
              h \<in> connected_clients (run loads dumps (take k es) s)
            \<and> h \<notin> connected_clients (run loads dumps (take (Suc k) es) s)))
    \<and> (\<forall>k < length es. \<forall>c.
          c \<notin> active (connected_clients s) (take k es) \<and> \<not> is_connect c (es ! k) \<longrightarrow>
          sent (run loads dumps (take (Suc k) es) s) c = sent (run loads dumps (take k es) s) c)"
proof -
  let ?live = "connected_clients s"
  have reg: "connected_clients (run loads dumps (take k es) s) = active ?live (take k es)" for k
    using assms by (simp add: run_clients well_formed_take)
  have snoc: "take (Suc k) es = take k es @ [es ! k]" if "k < length es" for k
    using that by (rule take_Suc_conv_app_nth)
  have wf: "well_formed (active ?live (take k es)) [es ! k]" if "k < length es" for k
    using well_formed_take [OF assms, of "Suc k"] that
    by (simp add: snoc well_formed_append)
  have one: "\<forall>k \<le> length es.
      connected_clients (run loads dumps (take k es) s) = active ?live (take k es)"
    using reg by simp
  have two: "\<forall>out \<in> set (outcomes loads dumps es s). \<forall>err. out \<noteq> Handler_raised err"
    using assms by (rule outcomes_no_raise)
  have three: "\<forall>k < length es. \<forall>h.
        (es ! k = Connect h \<longrightarrow> h \<in> connected_clients (run loads dumps (take (Suc k) es) s))
      \<and> (\<forall>message now broken. es ! k = Inbound h message now broken \<longrightarrow>
            h \<in> connected_clients (run loads dumps (take k es) s)
          \<and> h \<in> connected_clients (run loads dumps (take (Suc k) es) s))
      \<and> (\<forall>cause. es ! k = Disconnect h cause \<longrightarrow>
            h \<in> connected_clients (run loads dumps (take k es) s)
          \<and> h \<notin> connected_clients (run loads dumps (take (Suc k) es) s))"
  proof (intro allI impI)
    fix k h
    assume k: "k < length es"
    have "active ?live (take (Suc k) es) = active (active ?live (take k es)) [es ! k]"
      by (simp only: snoc [OF k] active_append)
    with reg [of "Suc k"]
    have after: "connected_clients (run loads dumps (take (Suc k) es) s) =
        active (active ?live (take k es)) [es ! k]"
      by (rule trans)
    show "(es ! k = Connect h \<longrightarrow> h \<in> connected_clients (run loads dumps (take (Suc k) es) s))
      \<and> (\<forall>message now broken. es ! k = Inbound h message now broken \<longrightarrow>
            h \<in> connected_clients (run loads dumps (take k es) s)
          \<and> h \<in> connected_clients (run loads dumps (take (Suc k) es) s))
      \<and> (\<forall>cause. es ! k = Disconnect h cause \<longrightarrow>
            h \<in> connected_clients (run loads dumps (take k es) s)
          \<and> h \<notin> connected_clients (run loads dumps (take (Suc k) es) s))"
      unfolding after reg [of k]
      using wf [OF k] by (cases "es ! k") auto
  qed
  have four: "\<forall>k < length es. \<forall>c.
      c \<notin> active ?live (take k es) \<and> \<not> is_connect c (es ! k) \<longrightarrow>
      sent (run loads dumps (take (Suc k) es) s) c = sent (run loads dumps (take k es) s) c"
  proof (intro allI impI)
    fix k c
    assume k: "k < length es"
      and c: "c \<notin> active ?live (take k es) \<and> \<not> is_connect c (es ! k)"
    have eq: "run loads dumps (take (Suc k) es) s =
        fst (step loads dumps (es ! k) (run loads dumps (take k es) s))"
      by (simp only: snoc [OF k] run_append run.simps)
    have out: "c \<notin> connected_clients (run loads dumps (take k es) s)"
      using c by (simp add: reg [of k])
    have quiet: "\<not> is_connect c (es ! k)"
      using c by (rule conjunct2)
    show "sent (run loads dumps (take (Suc k) es) s) c = sent (run loads dumps (take k es) s) c"
      unfolding eq using out quiet by (rule step_sent_outside)
  qed
  show ?thesis
    by (rule conjI [OF one conjI [OF two conjI [OF three four]]])
qed

theorem registry_span_witness:
  "connected_clients (run (\<lambda>m. m) Inr
      [Connect 1, Connect 2, Inbound 1 (Inl JSONDecodeError) ''T'' {},
       Inbound 2 (Inr (JObj [(''text'', JStr ''hi''), (''sender'', JStr ''B'')])) ''U'' {1},
       Disconnect 1 (Caught ConnectionClosed)] init) = {2}
   \<and> sent (run (\<lambda>m. m) Inr
      [Connect 1, Connect 2, Inbound 1 (Inl JSONDecodeError) ''T'' {},
       Inbound 2 (Inr (JObj [(''text'', JStr ''hi''), (''sender'', JStr ''B'')])) ''U'' {1}] init) 3 =
     sent (run (\<lambda>m. m) Inr
      [Connect 1, Connect 2, Inbound 1 (Inl JSONDecodeError) ''T'' {}] init) 3"
proof -
  let ?es = "[Connect 1, Connect 2, Inbound 1 (Inl JSONDecodeError) ''T'' {},
       Inbound 2 (Inr (JObj [(''text'', JStr ''hi''), (''sender'', JStr ''B'')])) ''U'' {1},
       Disconnect 1 (Caught ConnectionClosed)]"
  have wf: "well_formed (connected_clients (init :: json state)) ?es"
    by (simp add: init_def)
  note r = registry_span [where loads = "\<lambda>m. m" and dumps = Inr and s = "init :: json state" and es = ?es, OF wf]
  have len: "5 \<le> length ?es"
    by simp
  have all: "take 5 ?es = ?es"
    by simp
  have "connected_clients (run (\<lambda>m. m) Inr (take 5 ?es) init) =
      active (connected_clients (init :: json state)) (take 5 ?es)"
    by (rule r [THEN conjunct1, THEN spec, THEN mp, OF len])
  then have "connected_clients (run (\<lambda>m. m) Inr ?es init) = active (connected_clients (init :: json state)) ?es"
    by (simp only: all)
  moreover have "active (connected_clients (init :: json state)) ?es = {2}"
    by (auto simp: init_def)
  ultimately have one: "connected_clients (run (\<lambda>m. m) Inr ?es init) = {2}"
    by (rule trans)
  have k: "3 < length ?es"
    by simp
  have outside: "3 \<notin> active (connected_clients (init :: json state)) (take 3 ?es) \<and> \<not> is_connect 3 (?es ! 3)"
    by (simp add: init_def)
  have four: "take (Suc 3) ?es =
      [Connect 1, Connect 2, Inbound 1 (Inl JSONDecodeError) ''T'' {},
       Inbound 2 (Inr (JObj [(''text'', JStr ''hi''), (''sender'', JStr ''B'')])) ''U'' {1}]"
    by simp
  have three: "take 3 ?es = [Connect 1, Connect 2, Inbound 1 (Inl JSONDecodeError) ''T'' {}]"
    by simp
  have "sent (run (\<lambda>m. m) Inr (take (Suc 3) ?es) init) 3 = sent (run (\<lambda>m. m) Inr (take 3 ?es) init) 3"
    by (rule r [THEN conjunct2, THEN conjunct2, THEN conjunct2, THEN spec, THEN mp, OF k,
          THEN spec, THEN mp, OF outside])
  then have two: "sent (run (\<lambda>m. m) Inr
      [Connect 1, Connect 2, Inbound 1 (Inl JSONDecodeError) ''T'' {},
       Inbound 2 (Inr (JObj [(''text'', JStr ''hi''), (''sender'', JStr ''B'')])) ''U'' {1}] init) 3 =
     sent (run (\<lambda>m. m) Inr [Connect 1, Connect 2, Inbound 1 (Inl JSONDecodeError) ''T'' {}] init) 3"
    by (simp only: four three)
  from one two show ?thesis by (rule conjI)
qed

end
